theory Spec2Isabelle
  imports Main
begin

section \<open>The Cypher query builder of \<^verbatim>\<open>src/querybuilder/QueryBuilder.ts\<close>\<close>

text \<open>
  The class \<^verbatim>\<open>QueryBuilder\<close> collects clause fragments in three arrays, two string slots
  and two optional numbers, next to a plain object of parameters, and renders them with
  \<^verbatim>\<open>build\<close>. Builders are objects: \<^verbatim>\<open>union\<close> receives another builder, \<^verbatim>\<open>subquery\<close>
  hands a new one to a callback, and \<^verbatim>\<open>getParameters\<close> hands a new parameter object to the
  caller. The model therefore keeps builders and parameter objects in a store, addressed by
  references, and every method takes the receiver \<open>this\<close> and the store.

  The three arrays are private, are never handed out (\<^verbatim>\<open>build\<close> copies them with the
  spread syntax) and so have one owner each: they are list-valued fields of the builder.
  Strings are \<^typ>\<open>string\<close>. The numbers given to \<^verbatim>\<open>skip\<close> and \<^verbatim>\<open>limit\<close> are modelled as
  \<^typ>\<open>int\<close> (integer-valued numbers); parameter values are of an arbitrary type \<open>'v\<close>,
  and a parameter object is the finite map of its own entries, from names to values.
  No method of the class throws, so no method of the model fails.
\<close>

subsection \<open>Data model\<close>

type_synonym ref = nat

record QueryBuilder =
  matchClauses :: "string list"
  whereClauses :: "string list"
  withClauses :: "string list"
  returnClause :: string
  orderByClause :: string
  skipValue :: "int option"
  limitValue :: "int option"
  parameters :: ref

text \<open>
  The store: builder objects and parameter objects (\<^verbatim>\<open>Record<string, any>\<close>), each with
  the next unused reference. An object literal \<^verbatim>\<open>{}\<close> and \<^verbatim>\<open>new QueryBuilder()\<close> take
  the next reference.
\<close>

record 'v heap =
  builders :: "ref \<Rightarrow> QueryBuilder"
  nextBuilder :: ref
  records :: "ref \<Rightarrow> (string \<rightharpoonup> 'v)"
  nextRecord :: ref

definition new_record :: "'v heap \<Rightarrow> ref \<times> 'v heap" where
  "new_record h =
     (nextRecord h,
      h\<lparr>records := (records h)(nextRecord h := Map.empty), nextRecord := Suc (nextRecord h)\<rparr>)"

text \<open>\<^verbatim>\<open>new QueryBuilder()\<close>: the field initialisers of the class.\<close>

definition new_QueryBuilder :: "'v heap \<Rightarrow> ref \<times> 'v heap" where
  "new_QueryBuilder h =
     (let (p, h1) = new_record h;
          a = nextBuilder h1
      in (a, h1\<lparr>builders := (builders h1)(a :=
                  \<lparr>matchClauses = [], whereClauses = [], withClauses = [],
                   returnClause = [], orderByClause = [],
                   skipValue = None, limitValue = None, parameters = p\<rparr>),
                nextBuilder := Suc a\<rparr>))"

text \<open>An assignment to fields of the object \<open>this\<close>.\<close>

definition modify :: "ref \<Rightarrow> (QueryBuilder \<Rightarrow> QueryBuilder) \<Rightarrow> 'v heap \<Rightarrow> 'v heap" where
  "modify this f h = h\<lparr>builders := (builders h)(this := f (builders h this))\<rparr>"

text \<open>\<^verbatim>\<open>Object.assign(target, source)\<close>: the source's entries win.\<close>

definition Object_assign :: "ref \<Rightarrow> ref \<Rightarrow> 'v heap \<Rightarrow> 'v heap" where
  "Object_assign target source h =
     h\<lparr>records := (records h)(target := records h target ++ records h source)\<rparr>"

subsection \<open>Strings\<close>

text \<open>
  The template literal \<^verbatim>\<open>`SKIP ${n}`\<close> prints a number. For a safe integer, one of
  magnitude at most \<open>2\<^sup>5\<^sup>3 - 1\<close>, that is its decimal numeral, with a minus sign when
  negative. Beyond that range not every integer is a number of the language, and from
  \<open>10\<^sup>2\<^sup>1\<close> on the language prints an exponent (\<^verbatim>\<open>1e+21\<close>). So \<open>toString\<close> is the
  code's printing on safe integers only, and a property that speaks of a printed
  pagination value assumes \<open>safe_integer\<close> of it.
\<close>

fun digits :: "nat \<Rightarrow> string" where
  "digits n =
     (if n < 10 then [''0123456789'' ! n]
      else digits (n div 10) @ [''0123456789'' ! (n mod 10)])"

declare digits.simps [simp del]

definition toString :: "int \<Rightarrow> string" where
  "toString n = (if n < 0 then ''-'' @ digits (nat (- n)) else digits (nat n))"


text \<open>\<^verbatim>\<open>Boolean\<close> on a string: only the empty string is falsy.\<close>

definition Boolean :: "string \<Rightarrow> bool" where
  "Boolean s = (s \<noteq> [])"

text \<open>\<^verbatim>\<open>parts.join('\n')\<close>\<close>

fun join :: "string list \<Rightarrow> string" where
  "join [] = []"
| "join [x] = x"
| "join (x # y # ys) = x @ ''\<newline>'' @ join (y # ys)"

subsection \<open>The methods\<close>

text \<open>
  A method that ends with \<^verbatim>\<open>return this\<close> returns the store; its result is the receiver.
  The methods \<^verbatim>\<open>where\<close>, \<^verbatim>\<open>with\<close> and \<^verbatim>\<open>union\<close> are \<open>where'\<close>, \<open>with'\<close> and
  \<open>union'\<close> here, the plain names being taken.
\<close>

definition match :: "ref \<Rightarrow> string \<Rightarrow> 'v heap \<Rightarrow> 'v heap" where
  "match this pattern h =
     modify this (\<lambda>b. b\<lparr>matchClauses := matchClauses b @ [''MATCH '' @ pattern]\<rparr>) h"

definition optionalMatch :: "ref \<Rightarrow> string \<Rightarrow> 'v heap \<Rightarrow> 'v heap" where
  "optionalMatch this pattern h =
     modify this (\<lambda>b. b\<lparr>matchClauses := matchClauses b @ [''OPTIONAL MATCH '' @ pattern]\<rparr>) h"

definition where' :: "ref \<Rightarrow> string \<Rightarrow> 'v heap \<Rightarrow> 'v heap" where
  "where' this condition h =
     modify this (\<lambda>b. b\<lparr>whereClauses := whereClauses b @ [''WHERE '' @ condition]\<rparr>) h"

definition andWhere :: "ref \<Rightarrow> string \<Rightarrow> 'v heap \<Rightarrow> 'v heap" where
  "andWhere this condition h =
     (if length (whereClauses (builders h this)) = 0 then where' this condition h
      else modify this (\<lambda>b. b\<lparr>whereClauses := whereClauses b @ [''AND '' @ condition]\<rparr>) h)"

definition orWhere :: "ref \<Rightarrow> string \<Rightarrow> 'v heap \<Rightarrow> 'v heap" where
  "orWhere this condition h =
     (if length (whereClauses (builders h this)) = 0 then where' this condition h
      else modify this (\<lambda>b. b\<lparr>whereClauses := whereClauses b @ [''OR '' @ condition]\<rparr>) h)"

definition with' :: "ref \<Rightarrow> string \<Rightarrow> 'v heap \<Rightarrow> 'v heap" where
  "with' this expression h =
     modify this (\<lambda>b. b\<lparr>withClauses := withClauses b @ [''WITH '' @ expression]\<rparr>) h"

definition return :: "ref \<Rightarrow> string \<Rightarrow> 'v heap \<Rightarrow> 'v heap" where
  "return this expression h =
     modify this (\<lambda>b. b\<lparr>returnClause := ''RETURN '' @ expression\<rparr>) h"

definition orderBy :: "ref \<Rightarrow> string \<Rightarrow> 'v heap \<Rightarrow> 'v heap" where
  "orderBy this expression h =
     modify this (\<lambda>b. b\<lparr>orderByClause := ''ORDER BY '' @ expression\<rparr>) h"

definition skip :: "ref \<Rightarrow> int \<Rightarrow> 'v heap \<Rightarrow> 'v heap" where
  "skip this count h = modify this (\<lambda>b. b\<lparr>skipValue := Some count\<rparr>) h"

definition limit :: "ref \<Rightarrow> int \<Rightarrow> 'v heap \<Rightarrow> 'v heap" where
  "limit this count h = modify this (\<lambda>b. b\<lparr>limitValue := Some count\<rparr>) h"

definition setParameter :: "ref \<Rightarrow> string \<Rightarrow> 'v \<Rightarrow> 'v heap \<Rightarrow> 'v heap" where
  "setParameter this name val h =
     (let p = parameters (builders h this)
      in h\<lparr>records := (records h)(p := (records h p)(name \<mapsto> val))\<rparr>)"

text \<open>
  \<^verbatim>\<open>build\<close> collects the elements in a local array \<^verbatim>\<open>parts\<close>, pushes the two pagination
  lines onto it when the values are not \<^verbatim>\<open>null\<close>, and joins what \<^verbatim>\<open>filter(Boolean)\<close> keeps.
  It returns the text and the store.
\<close>

definition build :: "ref \<Rightarrow> 'v heap \<Rightarrow> string \<times> 'v heap" where
  "build this h =
     (let b = builders h this;
          parts = matchClauses b @ whereClauses b @ withClauses b
                    @ [returnClause b, orderByClause b];
          parts = (case skipValue b of None \<Rightarrow> parts
                   | Some n \<Rightarrow> parts @ [''SKIP '' @ toString n]);
          parts = (case limitValue b of None \<Rightarrow> parts
                   | Some n \<Rightarrow> parts @ [''LIMIT '' @ toString n])
      in (join (filter Boolean parts), h))"

text \<open>\<^verbatim>\<open>return { ...this.parameters }\<close>: a new object with the same entries.\<close>

definition getParameters :: "ref \<Rightarrow> 'v heap \<Rightarrow> ref \<times> 'v heap" where
  "getParameters this h =
     (let (r, h1) = new_record h
      in (r, h1\<lparr>records := (records h1)(r := records h1 (parameters (builders h1 this)))\<rparr>))"

definition clear :: "ref \<Rightarrow> 'v heap \<Rightarrow> 'v heap" where
  "clear this h =
     (let (p, h1) = new_record h
      in modify this (\<lambda>b. b\<lparr>matchClauses := [], whereClauses := [], withClauses := [],
                             returnClause := [], orderByClause := [],
                             skipValue := None, limitValue := None, parameters := p\<rparr>) h1)"

text \<open>
  The callback of \<^verbatim>\<open>subquery\<close> receives the new builder and may do anything to the store.
\<close>

definition subquery :: "ref \<Rightarrow> (ref \<Rightarrow> 'v heap \<Rightarrow> 'v heap) \<Rightarrow> 'v heap \<Rightarrow> 'v heap" where
  "subquery this callback h =
     (let (subBuilder, h1) = new_QueryBuilder h;
          h2 = callback subBuilder h1;
          (subquery, h3) = build subBuilder h2;
          h4 = modify this (\<lambda>b. b\<lparr>matchClauses := matchClauses b @ [''('' @ subquery @ '')'']\<rparr>) h3;
          target = parameters (builders h4 this);
          (source, h5) = getParameters subBuilder h4
      in Object_assign target source h5)"

definition union' :: "ref \<Rightarrow> ref \<Rightarrow> 'v heap \<Rightarrow> 'v heap" where
  "union' this otherQuery h =
     (let (currentQuery, h1) = build this h;
          (unionQuery, h2) = build otherQuery h1;
          h3 = clear this h2;
          h4 = modify this (\<lambda>b. b\<lparr>matchClauses := matchClauses b
                  @ [currentQuery @ ''\<newline>UNION\<newline>'' @ unionQuery]\<rparr>) h3;
          target = parameters (builders h4 this);
          (source, h5) = getParameters otherQuery h4
      in Object_assign target source h5)"

definition unionAll :: "ref \<Rightarrow> ref \<Rightarrow> 'v heap \<Rightarrow> 'v heap" where
  "unionAll this otherQuery h =
     (let (currentQuery, h1) = build this h;
          (unionQuery, h2) = build otherQuery h1;
          h3 = clear this h2;
          h4 = modify this (\<lambda>b. b\<lparr>matchClauses := matchClauses b
                  @ [currentQuery @ ''\<newline>UNION ALL\<newline>'' @ unionQuery]\<rparr>) h3;
          target = parameters (builders h4 this);
          (source, h5) = getParameters otherQuery h4
      in Object_assign target source h5)"

subsection \<open>Programs of calls\<close>

text \<open>
  A client program as the tests write them: a chain of calls on one builder. The callback
  of \<open>Subquery\<close> is a chain of calls on the builder it receives; the operand of \<open>Union\<close>
  and \<open>UnionAll\<close> is a new builder configured by a chain of calls, as in
  \<^verbatim>\<open>builder.union(new QueryBuilder().match(..).return(..))\<close>.
\<close>

datatype 'v call =
    Match string
  | OptionalMatch string
  | Where string
  | AndWhere string
  | OrWhere string
  | With string
  | Return string
  | OrderBy string
  | Skip int
  | Limit int
  | SetParameter string 'v
  | Clear
  | Subquery "'v call list"
  | Union "'v call list"
  | UnionAll "'v call list"

fun invoke :: "ref \<Rightarrow> 'v call \<Rightarrow> 'v heap \<Rightarrow> 'v heap"
  and run :: "ref \<Rightarrow> 'v call list \<Rightarrow> 'v heap \<Rightarrow> 'v heap" where
  "invoke this (Match p) h = match this p h"
| "invoke this (OptionalMatch p) h = optionalMatch this p h"
| "invoke this (Where c) h = where' this c h"
| "invoke this (AndWhere c) h = andWhere this c h"
| "invoke this (OrWhere c) h = orWhere this c h"
| "invoke this (With e) h = with' this e h"
| "invoke this (Return e) h = return this e h"
| "invoke this (OrderBy e) h = orderBy this e h"
| "invoke this (Skip n) h = skip this n h"
| "invoke this (Limit n) h = limit this n h"
| "invoke this (SetParameter k v) h = setParameter this k v h"
| "invoke this Clear h = clear this h"
| "invoke this (Subquery cs) h = subquery this (\<lambda>subBuilder h'. run subBuilder cs h') h"
| "invoke this (Union cs) h =
     (let (otherBuilder, h1) = new_QueryBuilder h
      in union' this otherBuilder (run otherBuilder cs h1))"
| "invoke this (UnionAll cs) h =
     (let (otherBuilder, h1) = new_QueryBuilder h
      in unionAll this otherBuilder (run otherBuilder cs h1))"
| "run this [] h = h"
| "run this (c # cs) h = run this cs (invoke this c h)"

text \<open>The store before any object is created.\<close>

definition init_heap :: "'v heap" where
  "init_heap =
     \<lparr>builders = (\<lambda>_. \<lparr>matchClauses = [], whereClauses = [], withClauses = [],
                        returnClause = [], orderByClause = [],
                        skipValue = None, limitValue = None, parameters = 0\<rparr>),
      nextBuilder = 0, records = (\<lambda>_. Map.empty), nextRecord = 0\<rparr>"

text \<open>
  Two example stores, after the union test of the repository: one builder configured as the
  person query, and a second one configured as the car query.
\<close>

definition person_query :: "int call list" where
  "person_query =
     [Match ''(p:Person)'', Return ''p.name AS item'', SetParameter ''minAge'' 18]"

definition car_query :: "int call list" where
  "car_query = [Match ''(c:Car)'', Return ''c.brand AS item'', SetParameter ''brand'' 7]"

definition one_builder :: "int heap" where
  "one_builder = run 0 person_query (snd (new_QueryBuilder init_heap))"

definition two_builders :: "int heap" where
  "two_builders = run 1 car_query (snd (new_QueryBuilder one_builder))"

subsection \<open>Notions used by the properties\<close>

text \<open>A builder object of the store: it and its parameter object have been created.\<close>

definition allocated :: "'v heap \<Rightarrow> ref \<Rightarrow> bool" where
  "allocated h a = (a < nextBuilder h \<and> parameters (builders h a) < nextRecord h)"

text \<open>
  The field values of a builder with parameter object \<open>p\<close> and nothing else: what the
  class initialisers and \<^verbatim>\<open>clear\<close> write.
\<close>

definition empty_builder :: "ref \<Rightarrow> QueryBuilder" where
  "empty_builder p = \<lparr>matchClauses = [], whereClauses = [], withClauses = [],
        returnClause = [], orderByClause = [], skipValue = None, limitValue = None,
        parameters = p\<rparr>"

text \<open>The fragments a builder holds in its buffers and slots, in rendering order.\<close>

definition stored :: "QueryBuilder \<Rightarrow> string list" where
  "stored b = matchClauses b @ whereClauses b @ withClauses b @ [returnClause b, orderByClause b]"

text \<open>The lines \<^verbatim>\<open>build\<close> pushes for the pagination values that are set.\<close>

definition pagination :: "QueryBuilder \<Rightarrow> string list" where
  "pagination b =
     (case skipValue b of None \<Rightarrow> [] | Some n \<Rightarrow> [''SKIP '' @ toString n])
     @ (case limitValue b of None \<Rightarrow> [] | Some n \<Rightarrow> [''LIMIT '' @ toString n])"

text \<open>The lines of a text (\<^verbatim>\<open>text.split('\n')\<close>).\<close>

fun split_nl :: "string \<Rightarrow> string list" where
  "split_nl [] = [[]]"
| "split_nl (c # cs) =
     (if c = CHR 0x0A then [] # split_nl cs
      else (case split_nl cs of [] \<Rightarrow> [[c]] | l # ls \<Rightarrow> (c # l) # ls))"

definition ends_nl :: "string \<Rightarrow> bool" where
  "ends_nl s = (s \<noteq> [] \<and> last s = CHR 0x0A)"

text \<open>A text that is empty or has no empty line.\<close>

definition no_blank_line :: "string \<Rightarrow> bool" where
  "no_blank_line s = (s = [] \<or> [] \<notin> set (split_nl s))"

text \<open>
  A text argument that has no empty line after its first line: no newline in it is
  followed by another newline or by the end of the text. In particular it does not end in
  a newline. Behind a keyword it gives a fragment with no empty line.
\<close>

definition clause_text :: "string \<Rightarrow> bool" where
  "clause_text p = ([] \<notin> set (tl (split_nl p)))"

text \<open>
  No fragment held by a builder has an empty line; and a store all of whose builders are
  so.
\<close>

definition solid :: "QueryBuilder \<Rightarrow> bool" where
  "solid b = (\<forall>f\<in>set (stored b). no_blank_line f)"

definition Solid :: "'v heap \<Rightarrow> bool" where
  "Solid h = (\<forall>a. solid (builders h a))"






text \<open>
  The clause-adding calls, the buffer each one appends to, and the keyword-prefixed
  fragment it adds.
\<close>

fun clause_adding :: "'v call \<Rightarrow> bool" where
  "clause_adding (Match p) = True"
| "clause_adding (OptionalMatch p) = True"
| "clause_adding (Where c) = True"
| "clause_adding (With e) = True"
| "clause_adding _ = False"

fun to_match_buffer :: "'v call \<Rightarrow> bool" where
  "to_match_buffer (Match p) = True"
| "to_match_buffer (OptionalMatch p) = True"
| "to_match_buffer _ = False"

fun to_where_buffer :: "'v call \<Rightarrow> bool" where
  "to_where_buffer (Where c) = True"
| "to_where_buffer _ = False"

fun to_with_buffer :: "'v call \<Rightarrow> bool" where
  "to_with_buffer (With e) = True"
| "to_with_buffer _ = False"

fun fragment :: "'v call \<Rightarrow> string" where
  "fragment (Match p) = ''MATCH '' @ p"
| "fragment (OptionalMatch p) = ''OPTIONAL MATCH '' @ p"
| "fragment (Where c) = ''WHERE '' @ c"
| "fragment (With e) = ''WITH '' @ e"
| "fragment _ = []"



text \<open>
  A well-formed store: the parameter object of every builder created so far has been
  created.
\<close>

definition heap_ok :: "'v heap \<Rightarrow> bool" where
  "heap_ok h = (\<forall>a\<in>set [0..<nextBuilder h]. parameters (builders h a) < nextRecord h)"

section \<open>Properties\<close>

subsection \<open>Joining and splitting\<close>

lemma build_snd: "snd (build this h) = h"
  by (simp add: build_def Let_def)

lemma build_fst:
  "fst (build this h) = join (filter Boolean (stored (builders h this) @ pagination (builders h this)))"
  by (simp add: build_def Let_def stored_def pagination_def split: option.splits)

lemma join_Cons: "join (x # xs) = (if xs = [] then x else x @ ''\<newline>'' @ join xs)"
  by (cases xs) simp_all

lemma join_filter_eq_Nil: "join (filter Boolean xs) = [] \<longleftrightarrow> (\<forall>x\<in>set xs. x = [])"
  by (induction xs) (auto simp: join_Cons Boolean_def)

lemma split_nl_not_Nil: "split_nl s \<noteq> []"
  by (induction s) (auto split: list.splits)

lemma split_nl_append:
  "split_nl (a @ CHR 0x0A # b) = split_nl a @ split_nl b"
  by (induction a) (auto simp: split_nl_not_Nil split: list.splits)

lemma split_nl_single: "CHR 0x0A \<notin> set s \<Longrightarrow> split_nl s = [s]"
  by (induction s) auto

lemma split_nl_join: "xs \<noteq> [] \<Longrightarrow> split_nl (join xs) = concat (map split_nl xs)"
  by (induction xs rule: join.induct) (simp_all add: split_nl_append)

lemma digits_no_nl: "CHR 0x0A \<notin> set (digits n)"
proof (induction n rule: digits.induct)
  case (1 n)
  have d: "\<And>k. k < 10 \<Longrightarrow> CHR 0x0A \<noteq> ''0123456789'' ! k"
  proof -
    fix k :: nat assume "k < 10"
    then have "k = 0 \<or> k = 1 \<or> k = 2 \<or> k = 3 \<or> k = 4 \<or> k = 5 \<or> k = 6 \<or> k = 7
        \<or> k = 8 \<or> k = 9" by arith
    then show "CHR 0x0A \<noteq> ''0123456789'' ! k" by (elim disjE) simp_all
  qed
  show ?case
  proof (cases "n < 10")
    case True
    then show ?thesis by (simp add: digits.simps[of n] d)
  next
    case False
    with 1 show ?thesis by (simp add: digits.simps[of n] d)
  qed
qed

lemma toString_no_nl: "CHR 0x0A \<notin> set (toString n)"
  by (simp add: toString_def digits_no_nl)

lemma element_is_line:
  assumes "x \<in> set xs" and "x \<noteq> []" and "CHR 0x0A \<notin> set x"
  shows "x \<in> set (split_nl (join (filter Boolean xs)))"
proof -
  from assms have in_f: "x \<in> set (filter Boolean xs)" by (simp add: Boolean_def)
  then have "filter Boolean xs \<noteq> []" by (metis empty_iff empty_set)
  then have "split_nl (join (filter Boolean xs)) = concat (map split_nl (filter Boolean xs))"
    by (rule split_nl_join)
  moreover have "x \<in> set (split_nl x)" using assms(3) by (simp add: split_nl_single)
  ultimately show ?thesis using in_f by auto
qed

subsection \<open>What the methods do to the store\<close>

lemma new_QueryBuilder_eq:
  "new_QueryBuilder h =
     (nextBuilder h,
      h\<lparr>records := (records h)(nextRecord h := Map.empty), nextRecord := Suc (nextRecord h),
        builders := (builders h)(nextBuilder h := empty_builder (nextRecord h)),
        nextBuilder := Suc (nextBuilder h)\<rparr>)"
  by (simp add: new_QueryBuilder_def new_record_def empty_builder_def Let_def)

lemma modify_simps:
  "builders (modify this f h) = (builders h)(this := f (builders h this))"
  "nextBuilder (modify this f h) = nextBuilder h"
  "records (modify this f h) = records h"
  "nextRecord (modify this f h) = nextRecord h"
  by (simp_all add: modify_def)

lemma clear_simps:
  "builders (clear this h) = (builders h)(this := empty_builder (nextRecord h))"
  "nextBuilder (clear this h) = nextBuilder h"
  by (simp_all add: clear_def new_record_def modify_def empty_builder_def fun_eq_iff)

lemma subquery_simps:
  "builders (subquery this callback h) =
     (let h2 = callback (fst (new_QueryBuilder h)) (snd (new_QueryBuilder h))
      in (builders h2)(this := (builders h2 this)
            \<lparr>matchClauses := matchClauses (builders h2 this)
                 @ [''('' @ fst (build (fst (new_QueryBuilder h)) h2) @ '')'']\<rparr>))"
  "nextBuilder (subquery this callback h) =
     nextBuilder (callback (fst (new_QueryBuilder h)) (snd (new_QueryBuilder h)))"
  by (simp_all add: subquery_def Let_def case_prod_beta build_snd modify_def getParameters_def
      new_record_def Object_assign_def)

lemma union_simps:
  "builders (union' this other h) =
     (builders h)(this := (empty_builder (nextRecord h))
        \<lparr>matchClauses := [fst (build this h) @ ''\<newline>UNION\<newline>'' @ fst (build other h)]\<rparr>)"
  "nextBuilder (union' this other h) = nextBuilder h"
  "builders (unionAll this other h) =
     (builders h)(this := (empty_builder (nextRecord h))
        \<lparr>matchClauses := [fst (build this h) @ ''\<newline>UNION ALL\<newline>'' @ fst (build other h)]\<rparr>)"
  "nextBuilder (unionAll this other h) = nextBuilder h"
  by (simp_all add: union'_def unionAll_def Let_def case_prod_beta build_snd modify_def
      getParameters_def new_record_def Object_assign_def clear_def empty_builder_def fun_eq_iff)

lemma union_records:
  assumes "parameters (builders h other) < nextRecord h"
  shows "records (union' this other h) (nextRecord h) =
           (if this = other then Map.empty else records h (parameters (builders h other)))"
    and "records (unionAll this other h) (nextRecord h) =
           (if this = other then Map.empty else records h (parameters (builders h other)))"
  using assms
  by (simp_all add: union'_def unionAll_def Let_def case_prod_beta build_snd clear_def
      new_record_def modify_def getParameters_def Object_assign_def)

lemma setParameter_simps:
  "builders (setParameter this k v h) = builders h"
  "nextBuilder (setParameter this k v h) = nextBuilder h"
  by (simp_all add: setParameter_def Let_def)

lemmas plain_defs = match_def optionalMatch_def where'_def andWhere_def orWhere_def with'_def
  return_def orderBy_def skip_def limit_def

lemma invoke_run_frame:
  "nextBuilder h \<le> nextBuilder (invoke this c h)
     \<and> (\<forall>a. a < nextBuilder h \<longrightarrow> a \<noteq> this \<longrightarrow> builders (invoke this c h) a = builders h a)"
  "nextBuilder h \<le> nextBuilder (run this cs h)
     \<and> (\<forall>a. a < nextBuilder h \<longrightarrow> a \<noteq> this \<longrightarrow> builders (run this cs h) a = builders h a)"
proof (induction this c h and this cs h rule: invoke_run.induct)
  case (13 this cs h)
  let ?sub = "nextBuilder h" and ?h1 = "snd (new_QueryBuilder h)"
  have "nextBuilder ?h1 \<le> nextBuilder (run ?sub cs ?h1)
     \<and> (\<forall>a. a < nextBuilder ?h1 \<longrightarrow> a \<noteq> ?sub \<longrightarrow> builders (run ?sub cs ?h1) a = builders ?h1 a)"
    by (rule 13)
  then show ?case
    by (simp add: subquery_simps Let_def) (simp add: new_QueryBuilder_eq)
next
  case (14 this cs h)
  let ?sub = "nextBuilder h" and ?h1 = "snd (new_QueryBuilder h)"
  have "nextBuilder ?h1 \<le> nextBuilder (run ?sub cs ?h1)
     \<and> (\<forall>a. a < nextBuilder ?h1 \<longrightarrow> a \<noteq> ?sub \<longrightarrow> builders (run ?sub cs ?h1) a = builders ?h1 a)"
    by (rule 14 [OF refl]) (simp add: new_QueryBuilder_eq)
  then show ?case
    by (simp add: union_simps new_QueryBuilder_eq)
next
  case (15 this cs h)
  let ?sub = "nextBuilder h" and ?h1 = "snd (new_QueryBuilder h)"
  have "nextBuilder ?h1 \<le> nextBuilder (run ?sub cs ?h1)
     \<and> (\<forall>a. a < nextBuilder ?h1 \<longrightarrow> a \<noteq> ?sub \<longrightarrow> builders (run ?sub cs ?h1) a = builders ?h1 a)"
    by (rule 15 [OF refl]) (simp add: new_QueryBuilder_eq)
  then show ?case
    by (simp add: union_simps new_QueryBuilder_eq)
next
  case (17 this c cs h)
  then show ?case by simp
qed (simp_all add: plain_defs modify_simps clear_simps setParameter_simps)

lemma getParameters_fst: "fst (getParameters this h) = nextRecord h"
  by (simp add: getParameters_def new_record_def)

lemma getParameters_snd:
  "parameters (builders h this) < nextRecord h \<Longrightarrow>
   snd (getParameters this h) =
     h\<lparr>records := (records h)(nextRecord h := records h (parameters (builders h this))),
       nextRecord := Suc (nextRecord h)\<rparr>"
  by (simp add: getParameters_def new_record_def)

lemma build_text_cong:
  "builders h' this = builders h this \<Longrightarrow> fst (build this h') = fst (build this h)"
  by (simp add: build_fst)

lemma run_clause_adding:
  "\<forall>c\<in>set cs. clause_adding c \<Longrightarrow>
   builders (run b cs h) b = (builders h b)
     \<lparr>matchClauses := matchClauses (builders h b) @ map fragment (filter to_match_buffer cs),
      whereClauses := whereClauses (builders h b) @ map fragment (filter to_where_buffer cs),
      withClauses := withClauses (builders h b) @ map fragment (filter to_with_buffer cs)\<rparr>"
proof (induction cs arbitrary: h)
  case Nil
  show ?case by simp
next
  case (Cons c cs)
  then have c: "clause_adding c" and cs: "\<forall>c\<in>set cs. clause_adding c" by simp_all
  show ?case
    using c by (cases c) (simp_all add: Cons.IH [OF cs] match_def optionalMatch_def where'_def with'_def modify_def)
qed

subsection \<open>Rendered text: empty or not\<close>

lemma pagination_not_Nil: "f \<in> set (pagination b) \<Longrightarrow> f \<noteq> []"
  by (auto simp: pagination_def split: option.splits)

lemma build_eq_Nil:
  "fst (build this h) = [] \<longleftrightarrow>
     (\<forall>f\<in>set (stored (builders h this)). f = []) \<and> pagination (builders h this) = []"
proof -
  have "(\<forall>f\<in>set (pagination b). f = []) \<longleftrightarrow> pagination b = []" for b
    using pagination_not_Nil [of _ b] by (cases "pagination b") auto
  moreover have "fst (build this h) = [] \<longleftrightarrow>
      (\<forall>f\<in>set (stored (builders h this) @ pagination (builders h this)). f = [])"
    by (simp only: build_fst join_filter_eq_Nil)
  ultimately show ?thesis
    by (simp add: ball_Un)
qed

lemma pagination_eq_Nil: "pagination b = [] \<longleftrightarrow> skipValue b = None \<and> limitValue b = None"
  by (simp add: pagination_def split: option.splits)

subsection \<open>Texts without empty lines\<close>

lemma split_nl_prefix:
  "CHR 0x0A \<notin> set k \<Longrightarrow> split_nl (k @ s) = (k @ hd (split_nl s)) # tl (split_nl s)"
  by (induction k) (auto simp: split_nl_not_Nil split: list.splits)

lemma split_nl_suffix:
  "CHR 0x0A \<notin> set k \<Longrightarrow>
   split_nl (s @ k) = butlast (split_nl s) @ [last (split_nl s) @ k]"
proof (induction s)
  case Nil
  then show ?case by (simp add: split_nl_single)
next
  case (Cons c s)
  then show ?case
    by (auto simp: split_nl_not_Nil split: list.splits)
qed

lemma join_split_nl: "join (split_nl s) = s"
  by (induction s) (auto simp: join_Cons split_nl_not_Nil split: list.splits)

lemma ends_nl_blank: "ends_nl s \<Longrightarrow> [] \<in> set (split_nl s)"
proof -
  assume "ends_nl s"
  then obtain a where "s = a @ [CHR 0x0A]"
    by (metis ends_nl_def append_butlast_last_id)
  then have "split_nl s = split_nl a @ [[]]"
    using split_nl_append [of a "[]"] by simp
  then show ?thesis by simp
qed

lemma no_blank_line_not_ends_nl: "no_blank_line s \<Longrightarrow> \<not> ends_nl s"
  using ends_nl_blank by (auto simp: no_blank_line_def ends_nl_def)

lemma keyword_line:
  assumes "clause_text p" and "k \<noteq> []" and "CHR 0x0A \<notin> set k"
  shows "no_blank_line (k @ p)"
  using assms by (simp add: no_blank_line_def clause_text_def split_nl_prefix)

lemma parenthesised_line:
  assumes "no_blank_line t"
  shows "no_blank_line (''('' @ t @ '')'')"
proof -
  have 1: "split_nl (t @ '')'') = butlast (split_nl t) @ [last (split_nl t) @ '')'']"
    by (rule split_nl_suffix) simp
  have "split_nl (''('' @ (t @ '')'')) = (''('' @ hd (split_nl (t @ '')''))) # tl (split_nl (t @ '')''))"
    by (rule split_nl_prefix) simp
  moreover have "[] \<notin> set (tl (split_nl (t @ '')'')))"
  proof (cases "t = []")
    case True
    then show ?thesis by simp
  next
    case False
    with assms have "[] \<notin> set (split_nl t)" by (simp add: no_blank_line_def)
    then have "[] \<notin> set (butlast (split_nl t))" by (meson in_set_butlastD)
    then have "[] \<notin> set (split_nl (t @ '')''))" by (simp add: 1)
    then show ?thesis by (meson list.set_sel(2) split_nl_not_Nil)
  qed
  ultimately show ?thesis by (simp add: no_blank_line_def)
qed

lemma union_line:
  assumes "no_blank_line c" and "c \<noteq> []" and "no_blank_line u" and "u \<noteq> []"
      and "k \<noteq> []" and "CHR 0x0A \<notin> set k"
  shows "no_blank_line (c @ CHR 0x0A # k @ CHR 0x0A # u)"
proof -
  have "split_nl (c @ CHR 0x0A # k @ CHR 0x0A # u) = split_nl c @ split_nl k @ split_nl u"
    by (simp add: split_nl_append)
  with assms show ?thesis by (simp add: no_blank_line_def split_nl_single)
qed

lemma join_no_blank_line:
  assumes "\<forall>x\<in>set xs. no_blank_line x"
  shows "no_blank_line (join (filter Boolean xs))"
proof (cases "filter Boolean xs = []")
  case True
  then show ?thesis by (simp add: no_blank_line_def)
next
  case False
  then have "split_nl (join (filter Boolean xs)) = concat (map split_nl (filter Boolean xs))"
    by (rule split_nl_join)
  with assms show ?thesis by (auto simp: no_blank_line_def Boolean_def)
qed

lemma pagination_no_blank_line: "f \<in> set (pagination b) \<Longrightarrow> no_blank_line f"
  using toString_no_nl
  by (auto simp: pagination_def no_blank_line_def split_nl_single split: option.splits)

lemma solid_build: "solid (builders h this) \<Longrightarrow> no_blank_line (fst (build this h))"
  unfolding build_fst
  by (rule join_no_blank_line) (use pagination_no_blank_line in \<open>auto simp: solid_def\<close>)

subsection \<open>Stores whose fragments have no empty line\<close>

lemma Solid_modify:
  "Solid h \<Longrightarrow> solid (f (builders h this)) \<Longrightarrow> Solid (modify this f h)"
  by (simp add: Solid_def modify_simps)

lemma solid_empty_builder: "solid (empty_builder p)"
  by (simp add: solid_def stored_def empty_builder_def no_blank_line_def)

lemma solid_push:
  "solid b \<Longrightarrow> no_blank_line f \<Longrightarrow> solid (b\<lparr>matchClauses := matchClauses b @ [f]\<rparr>)"
  "solid b \<Longrightarrow> no_blank_line f \<Longrightarrow> solid (b\<lparr>whereClauses := whereClauses b @ [f]\<rparr>)"
  "solid b \<Longrightarrow> no_blank_line f \<Longrightarrow> solid (b\<lparr>withClauses := withClauses b @ [f]\<rparr>)"
  "solid b \<Longrightarrow> no_blank_line f \<Longrightarrow> solid (b\<lparr>returnClause := f\<rparr>)"
  "solid b \<Longrightarrow> no_blank_line f \<Longrightarrow> solid (b\<lparr>orderByClause := f\<rparr>)"
  "solid b \<Longrightarrow> solid (b\<lparr>skipValue := x\<rparr>)"
  "solid b \<Longrightarrow> solid (b\<lparr>limitValue := x\<rparr>)"
  by (auto simp: solid_def stored_def)

lemma Solid_clause_calls:
  assumes "Solid h" and "clause_text p"
  shows "Solid (match this p h)" and "Solid (optionalMatch this p h)"
    and "Solid (where' this p h)" and "Solid (andWhere this p h)"
    and "Solid (orWhere this p h)" and "Solid (with' this p h)"
    and "Solid (return this p h)" and "Solid (orderBy this p h)"
proof -
  from assms(1) have b: "solid (builders h this)" by (simp add: Solid_def)
  have k: "no_blank_line (k @ p)" if "k \<noteq> []" "CHR 0x0A \<notin> set k" for k
    using assms(2) that by (rule keyword_line)
  show "Solid (match this p h)"
    unfolding match_def by (rule Solid_modify [OF assms(1)], rule solid_push(1) [OF b], rule k) simp_all
  show "Solid (optionalMatch this p h)"
    unfolding optionalMatch_def by (rule Solid_modify [OF assms(1)], rule solid_push(1) [OF b], rule k) simp_all
  show w: "Solid (where' this p h)"
    unfolding where'_def by (rule Solid_modify [OF assms(1)], rule solid_push(2) [OF b], rule k) simp_all
  have "Solid (modify this (\<lambda>b. b\<lparr>whereClauses := whereClauses b @ [''AND '' @ p]\<rparr>) h)"
    by (rule Solid_modify [OF assms(1)], rule solid_push(2) [OF b], rule k) simp_all
  with w show "Solid (andWhere this p h)" by (simp add: andWhere_def)
  have "Solid (modify this (\<lambda>b. b\<lparr>whereClauses := whereClauses b @ [''OR '' @ p]\<rparr>) h)"
    by (rule Solid_modify [OF assms(1)], rule solid_push(2) [OF b], rule k) simp_all
  with w show "Solid (orWhere this p h)" by (simp add: orWhere_def)
  show "Solid (with' this p h)"
    unfolding with'_def by (rule Solid_modify [OF assms(1)], rule solid_push(3) [OF b], rule k) simp_all
  show "Solid (return this p h)"
    unfolding return_def by (rule Solid_modify [OF assms(1)], rule solid_push(4) [OF b], rule k) simp_all
  show "Solid (orderBy this p h)"
    unfolding orderBy_def by (rule Solid_modify [OF assms(1)], rule solid_push(5) [OF b], rule k) simp_all
qed

lemma Solid_other_calls:
  assumes "Solid h"
  shows "Solid (skip this n h)" and "Solid (limit this n h)"
    and "Solid (setParameter this k v h)" and "Solid (clear this h)"
    and "Solid (snd (build this h))" and "Solid (snd (getParameters this h))"
    and "Solid (snd (new_QueryBuilder h))"
proof -
  from assms have b: "solid (builders h this)" by (simp add: Solid_def)
  show "Solid (skip this n h)"
    unfolding skip_def by (rule Solid_modify [OF assms], rule solid_push(6) [OF b])
  show "Solid (limit this n h)"
    unfolding limit_def by (rule Solid_modify [OF assms], rule solid_push(7) [OF b])
  show "Solid (setParameter this k v h)"
    using assms by (simp add: Solid_def setParameter_simps)
  show "Solid (clear this h)"
    using assms by (simp add: Solid_def clear_simps solid_empty_builder)
  show "Solid (snd (build this h))"
    using assms by (simp add: build_snd)
  show "Solid (snd (getParameters this h))"
    using assms by (simp add: Solid_def getParameters_def new_record_def)
  show "Solid (snd (new_QueryBuilder h))"
    using assms by (simp add: Solid_def new_QueryBuilder_eq solid_empty_builder)
qed

lemma Solid_subquery:
  assumes "Solid (callback (fst (new_QueryBuilder h)) (snd (new_QueryBuilder h)))"
  shows "Solid (subquery this callback h)"
proof -
  let ?sub = "fst (new_QueryBuilder h)"
  let ?h2 = "callback ?sub (snd (new_QueryBuilder h))"
  from assms have "solid (builders ?h2 ?sub)" and b: "solid (builders ?h2 this)"
    by (simp_all add: Solid_def)
  then have "no_blank_line (fst (build ?sub ?h2))"
    by (simp add: solid_build)
  then have "no_blank_line (''('' @ fst (build ?sub ?h2) @ '')'')"
    by (rule parenthesised_line)
  with b have "solid ((builders ?h2 this)\<lparr>matchClauses := matchClauses (builders ?h2 this)
      @ [''('' @ fst (build ?sub ?h2) @ '')'']\<rparr>)"
    by (rule solid_push(1))
  with assms show ?thesis
    by (simp add: Solid_def subquery_simps Let_def del: append.simps)
qed

lemma Solid_union:
  assumes "Solid h" and "fst (build this h) \<noteq> []" and "fst (build other h) \<noteq> []"
  shows "Solid (union' this other h)" and "Solid (unionAll this other h)"
proof -
  from assms(1) have c: "no_blank_line (fst (build this h))"
    and u: "no_blank_line (fst (build other h))"
    by (simp_all add: Solid_def solid_build)
  have "no_blank_line (fst (build this h) @ CHR 0x0A # ''UNION'' @ CHR 0x0A # fst (build other h))"
    using c assms(2) u assms(3) by (rule union_line) simp_all
  then show "Solid (union' this other h)"
    using assms(1)
    by (simp add: Solid_def union_simps solid_def stored_def empty_builder_def no_blank_line_def)
  have "no_blank_line (fst (build this h) @ CHR 0x0A # ''UNION ALL'' @ CHR 0x0A # fst (build other h))"
    using c assms(2) u assms(3) by (rule union_line) simp_all
  then show "Solid (unionAll this other h)"
    using assms(1)
    by (simp add: Solid_def union_simps solid_def stored_def empty_builder_def no_blank_line_def)
qed

lemma Solid_init: "Solid init_heap"
  by (simp add: Solid_def init_heap_def solid_def stored_def no_blank_line_def)

subsection \<open>Decimal numerals\<close>







subsection \<open>Lines of the rendered text\<close>












subsection \<open>The example stores\<close>

lemma one_builder_simps:
  "builders one_builder 0 = \<lparr>matchClauses = [''MATCH (p:Person)''], whereClauses = [],
      withClauses = [], returnClause = ''RETURN p.name AS item'', orderByClause = [],
      skipValue = None, limitValue = None, parameters = 0\<rparr>"
  "nextBuilder one_builder = 1"
  "nextRecord one_builder = 1"
  "records one_builder 0 = [''minAge'' \<mapsto> 18]"
  by (simp_all add: one_builder_def person_query_def new_QueryBuilder_eq init_heap_def
      empty_builder_def match_def return_def modify_def setParameter_def)

lemma two_builders_simps:
  "builders two_builders 0 = \<lparr>matchClauses = [''MATCH (p:Person)''], whereClauses = [],
      withClauses = [], returnClause = ''RETURN p.name AS item'', orderByClause = [],
      skipValue = None, limitValue = None, parameters = 0\<rparr>"
  "builders two_builders (Suc 0) = \<lparr>matchClauses = [''MATCH (c:Car)''], whereClauses = [],
      withClauses = [], returnClause = ''RETURN c.brand AS item'', orderByClause = [],
      skipValue = None, limitValue = None, parameters = 1\<rparr>"
  "nextBuilder two_builders = 2"
  "nextRecord two_builders = 2"
  "records two_builders 0 = [''minAge'' \<mapsto> 18]"
  "records two_builders (Suc 0) = [''brand'' \<mapsto> 7]"
  by (simp_all add: two_builders_def car_query_def new_QueryBuilder_eq one_builder_simps
      empty_builder_def match_def return_def modify_def setParameter_def)

lemma two_builders_all:
  "builders two_builders a =
     (if a = 0 then builders two_builders 0
      else if a = Suc 0 then builders two_builders (Suc 0)
      else empty_builder 0)"
  by (simp add: two_builders_def car_query_def one_builder_def person_query_def
      new_QueryBuilder_eq init_heap_def empty_builder_def match_def return_def modify_def
      setParameter_def)

lemma example_texts:
  "fst (build 0 two_builders) = ''MATCH (p:Person)\<newline>RETURN p.name AS item''"
  "fst (build (Suc 0) two_builders) = ''MATCH (c:Car)\<newline>RETURN c.brand AS item''"
  "fst (build 0 one_builder) = ''MATCH (p:Person)\<newline>RETURN p.name AS item''"
  by (simp_all add: build_fst two_builders_simps one_builder_simps stored_def pagination_def
      Boolean_def)

subsection \<open>Programs that never set a pagination value\<close>





subsection \<open>Well-formed stores\<close>

text \<open>
  The store before any object is created is well-formed, programs keep it so, and in a
  well-formed store every builder created so far is allocated: the hypothesis
  \<open>allocated\<close> of the properties below holds of every builder a program can name.
\<close>

lemma nextRecord_simps:
  "nextRecord (clear this h) = Suc (nextRecord h)"
  "nextRecord (setParameter this k v h) = nextRecord h"
  "nextRecord (subquery this callback h)
     = Suc (nextRecord (callback (fst (new_QueryBuilder h)) (snd (new_QueryBuilder h))))"
  "nextRecord (union' this other h) = Suc (Suc (nextRecord h))"
  "nextRecord (unionAll this other h) = Suc (Suc (nextRecord h))"
  by (simp_all add: clear_def setParameter_def subquery_def union'_def unionAll_def Let_def
      case_prod_beta build_snd modify_def getParameters_def new_record_def Object_assign_def)

lemma heap_ok_init: "heap_ok init_heap"
  by (simp add: heap_ok_def init_heap_def)

lemma heap_ok_new: "heap_ok h \<Longrightarrow> heap_ok (snd (new_QueryBuilder h))"
  by (auto simp: heap_ok_def new_QueryBuilder_eq empty_builder_def less_Suc_eq)

lemma heap_ok_allocated: "heap_ok h \<Longrightarrow> a < nextBuilder h \<Longrightarrow> allocated h a"
  by (simp add: heap_ok_def allocated_def)

lemma invoke_run_heap_ok:
  "heap_ok h \<Longrightarrow> this < nextBuilder h \<Longrightarrow> heap_ok (invoke this c h)"
  "heap_ok h \<Longrightarrow> this < nextBuilder h \<Longrightarrow> heap_ok (run this cs h)"
proof (induction this c h and this cs h rule: invoke_run.induct)
  case (13 this cs h)
  let ?sub = "nextBuilder h" and ?h1 = "snd (new_QueryBuilder h)"
  have ok1: "heap_ok ?h1"
    using 13(2) by (rule heap_ok_new)
  have "heap_ok (run ?sub cs ?h1)"
    by (rule 13(1) [OF ok1]) (simp add: new_QueryBuilder_eq)
  then show ?case
    by (auto simp: heap_ok_def subquery_simps nextRecord_simps Let_def new_QueryBuilder_eq)
next
  case (14 this cs h)
  let ?other = "nextBuilder h" and ?h1 = "snd (new_QueryBuilder h)"
  have ok1: "heap_ok ?h1"
    using 14(2) by (rule heap_ok_new)
  have "heap_ok (run ?other cs ?h1)"
    by (rule 14(1) [OF refl _ ok1]) (simp_all add: new_QueryBuilder_eq)
  then show ?case
    by (auto simp: heap_ok_def union_simps nextRecord_simps new_QueryBuilder_eq
        empty_builder_def)
next
  case (15 this cs h)
  let ?other = "nextBuilder h" and ?h1 = "snd (new_QueryBuilder h)"
  have ok1: "heap_ok ?h1"
    using 15(2) by (rule heap_ok_new)
  have "heap_ok (run ?other cs ?h1)"
    by (rule 15(1) [OF refl _ ok1]) (simp_all add: new_QueryBuilder_eq)
  then show ?case
    by (auto simp: heap_ok_def union_simps nextRecord_simps new_QueryBuilder_eq
        empty_builder_def)
next
  case (17 this c cs h)
  have "this < nextBuilder (invoke this c h)"
    using invoke_run_frame(1) [of h this c] 17(4) by simp
  with 17 show ?case by simp
qed (auto simp: heap_ok_def plain_defs modify_simps clear_simps setParameter_simps
      nextRecord_simps empty_builder_def)

section \<open>The properties of the specification\<close>

subsection \<open>C1: clause-adding calls render buffer by buffer\<close>

text \<open>
  Claim C1. For every sequence of clause-adding calls (\<open>match\<close>, \<open>optionalMatch\<close>,
  \<open>where\<close>, \<open>with\<close>) on a new builder, with no return, order-by, skip or limit set,
  \<open>build\<close> returns the newline-join of the keyword-prefixed fragments the calls added: all
  fragments of the match buffer, then all of the where buffer, then all of the with buffer,
  each buffer in call order. The empty return and order-by slots are dropped before the
  join and leave no blank line.
\<close>

theorem clause_calls_render_by_buffer:
  assumes "\<forall>c\<in>set cs. clause_adding c" and "new_QueryBuilder h = (b, h0)"
  shows "fst (build b (run b cs h0)) =
           join (map fragment (filter to_match_buffer cs)
                 @ map fragment (filter to_where_buffer cs)
                 @ map fragment (filter to_with_buffer cs))"
proof -
  have nonempty: "filter Boolean (map fragment (filter p cs)) = map fragment (filter p cs)" for p
  proof -
    have "Boolean (fragment c)" if "clause_adding c" for c :: "'a call"
      using that by (cases c) (simp_all add: Boolean_def)
    with assms(1) show ?thesis by (simp add: filter_id_conv)
  qed
  from assms(2) have "b = fst (new_QueryBuilder h)" and "h0 = snd (new_QueryBuilder h)"
    by simp_all
  then have b0: "builders h0 b = empty_builder (nextRecord h)"
    by (simp add: new_QueryBuilder_eq)
  show ?thesis
    by (simp add: build_fst run_clause_adding [OF assms(1)] b0 stored_def pagination_def
        nonempty empty_builder_def)
      (simp add: Boolean_def)
qed

text \<open>
  An instance: the calls interleave the families, the text groups them by buffer.
\<close>

theorem clause_calls_render_by_buffer_witness:
  "list_all clause_adding [Match ''(p:Person)'', With ''p'',
       OptionalMatch ''(p)-[:OWNS]->(c:Car)'', Where ''p.age > 18'' :: unit call]
   \<and> new_QueryBuilder (init_heap :: unit heap) = (0, snd (new_QueryBuilder init_heap))
   \<and> fst (build 0 (run 0 [Match ''(p:Person)'', With ''p'',
                            OptionalMatch ''(p)-[:OWNS]->(c:Car)'', Where ''p.age > 18'']
                      (snd (new_QueryBuilder (init_heap :: unit heap)))))
       = ''MATCH (p:Person)\<newline>OPTIONAL MATCH (p)-[:OWNS]->(c:Car)\<newline>WHERE p.age > 18\<newline>WITH p''"
  using clause_calls_render_by_buffer
    [of "[Match ''(p:Person)'', With ''p'', OptionalMatch ''(p)-[:OWNS]->(c:Car)'',
          Where ''p.age > 18'']"
        "init_heap :: unit heap" 0 "snd (new_QueryBuilder init_heap)"]
  by (simp add: new_QueryBuilder_eq init_heap_def)

subsection \<open>C2: the subquery scenario\<close>

text \<open>
  Claim C2 states that \<open>match('(p:Person)')\<close>, \<open>where('p.age > 18')\<close>, a subquery
  configured by \<open>match('(p)-[:OWNS]->(c:Car)')\<close> and \<open>return('count(c) AS carCount')\<close>,
  \<open>return('p, carCount')\<close> and \<open>build()\<close> on a new builder give a text with the
  \<open>WHERE\<close> line second and the parenthesised subquery, without its \<open>MATCH\<close> keyword,
  third; the test \<^verbatim>\<open>should build a query with subquery\<close> asserts the same text. The
  code returns another text: \<open>subquery\<close> pushes the rendered sub-builder, keyword
  included, onto the match buffer, and \<open>build\<close> renders the match buffer before the
  where buffer.
\<close>

theorem subquery_scenario_output:
  "(let (b, h0) = new_QueryBuilder (h :: 'v heap);
        h1 = match b ''(p:Person)'' h0;
        h2 = where' b ''p.age > 18'' h1;
        h3 = subquery b (\<lambda>sub s. return sub ''count(c) AS carCount''
                                     (match sub ''(p)-[:OWNS]->(c:Car)'' s)) h2;
        h4 = return b ''p, carCount'' h3
    in fst (build b h4))
   = ''MATCH (p:Person)\<newline>(MATCH (p)-[:OWNS]->(c:Car)\<newline>RETURN count(c) AS carCount)\<newline>WHERE p.age > 18\<newline>RETURN p, carCount''
   \<and> ''MATCH (p:Person)\<newline>(MATCH (p)-[:OWNS]->(c:Car)\<newline>RETURN count(c) AS carCount)\<newline>WHERE p.age > 18\<newline>RETURN p, carCount''
     \<noteq> ''MATCH (p:Person)\<newline>WHERE p.age > 18\<newline>((p)-[:OWNS]->(c:Car)\<newline>RETURN count(c) AS carCount)\<newline>RETURN p, carCount''"
proof (rule conjI)
  show "(let (b, h0) = new_QueryBuilder (h :: 'v heap);
        h1 = match b ''(p:Person)'' h0;
        h2 = where' b ''p.age > 18'' h1;
        h3 = subquery b (\<lambda>sub s. return sub ''count(c) AS carCount''
                                     (match sub ''(p)-[:OWNS]->(c:Car)'' s)) h2;
        h4 = return b ''p, carCount'' h3
    in fst (build b h4))
   = ''MATCH (p:Person)\<newline>(MATCH (p)-[:OWNS]->(c:Car)\<newline>RETURN count(c) AS carCount)\<newline>WHERE p.age > 18\<newline>RETURN p, carCount''"
    by (simp add: Let_def case_prod_beta build_fst return_def match_def where'_def
        modify_simps subquery_simps new_QueryBuilder_eq stored_def pagination_def
        empty_builder_def Boolean_def)
  show "''MATCH (p:Person)\<newline>(MATCH (p)-[:OWNS]->(c:Car)\<newline>RETURN count(c) AS carCount)\<newline>WHERE p.age > 18\<newline>RETURN p, carCount''
     \<noteq> ''MATCH (p:Person)\<newline>WHERE p.age > 18\<newline>((p)-[:OWNS]->(c:Car)\<newline>RETURN count(c) AS carCount)\<newline>RETURN p, carCount''"
    by simp
qed

subsection \<open>C3: what union and unionAll leave in the receiver\<close>

text \<open>
  Claim C3, amended. For every pair of builders A and B of the store, \<open>A.union(B)\<close>
  renders A and B, resets A, and leaves A with the single match-buffer entry
  \<open><A-rendered>\nUNION\n<B-rendered>\<close> (\<open>UNION ALL\<close> for \<open>unionAll\<close>) and every other
  buffer, slot and pagination value of A unset. Afterwards, when B is a builder other than
  A, A's parameter object holds the entries that B's parameter object held at the call;
  when B is A itself, A's parameter object is empty.
\<close>

theorem union_result:
  assumes "allocated h other"
  shows "(let h' = union' this other h; a = builders h' this in
            matchClauses a = [fst (build this h) @ ''\<newline>UNION\<newline>'' @ fst (build other h)]
            \<and> whereClauses a = [] \<and> withClauses a = []
            \<and> returnClause a = [] \<and> orderByClause a = []
            \<and> skipValue a = None \<and> limitValue a = None
            \<and> (this \<noteq> other \<longrightarrow>
                 records h' (parameters a) = records h (parameters (builders h other)))
            \<and> (this = other \<longrightarrow> records h' (parameters a) = Map.empty))
         \<and> (let h' = unionAll this other h; a = builders h' this in
            matchClauses a = [fst (build this h) @ ''\<newline>UNION ALL\<newline>'' @ fst (build other h)]
            \<and> whereClauses a = [] \<and> withClauses a = []
            \<and> returnClause a = [] \<and> orderByClause a = []
            \<and> skipValue a = None \<and> limitValue a = None
            \<and> (this \<noteq> other \<longrightarrow>
                 records h' (parameters a) = records h (parameters (builders h other)))
            \<and> (this = other \<longrightarrow> records h' (parameters a) = Map.empty))"
proof -
  from assms have "parameters (builders h other) < nextRecord h"
    by (simp add: allocated_def)
  then show ?thesis
    by (simp add: Let_def union_simps union_records empty_builder_def)
qed

text \<open>The union test of the repository: the person query united with the car query.\<close>

theorem union_result_witness:
  "allocated two_builders 1
   \<and> matchClauses (builders (union' 0 1 two_builders) 0)
       = [''MATCH (p:Person)\<newline>RETURN p.name AS item\<newline>UNION\<newline>MATCH (c:Car)\<newline>RETURN c.brand AS item'']
   \<and> (0 :: ref) \<noteq> 1
   \<and> records (union' 0 1 two_builders) (parameters (builders (union' 0 1 two_builders) 0))
       = records two_builders 1
   \<and> records (unionAll 1 1 two_builders) (parameters (builders (unionAll 1 1 two_builders) 1))
       = Map.empty"
  using union_result [of two_builders 1 0] union_result [of two_builders 1 1]
  by (simp add: Let_def allocated_def two_builders_simps example_texts)

text \<open>
  The claim as stated, for every pair of builders, fails when the builder is united with
  itself: \<open>clear\<close> has emptied the parameter object before \<open>getParameters\<close> reads it, so
  the entry \<open>minAge\<close> that the operand held at the call is gone afterwards.
\<close>

theorem union_with_itself_loses_parameters:
  "records (union' 0 0 one_builder) (parameters (builders (union' 0 0 one_builder) 0)) ''minAge''
     \<noteq> records one_builder (parameters (builders one_builder 0)) ''minAge''"
  by (simp add: union'_def Let_def case_prod_beta build_snd clear_def new_record_def modify_def
      getParameters_def Object_assign_def one_builder_simps)

subsection \<open>C4: lines of the built text\<close>

text \<open>
  Claim C4, amended. Take the builder states reached from the store with no object by
  method calls: new builders, \<open>subquery\<close> with any callback that itself makes such
  calls, \<open>union\<close> and \<open>unionAll\<close> with any operand, a new builder or not, the
  receiver itself included. When every text argument has no empty line after its first
  line (in particular does not end in a newline) and, at each \<open>union\<close> and \<open>unionAll\<close>,
  the receiver and the operand both render to a non-empty text, the text returned by
  \<open>build\<close> is empty or consists of non-empty lines separated by single newlines, and it
  does not end in a newline.

  The property \<open>Solid\<close> (no fragment held by any builder has an empty line) holds of the
  store with no object and is kept by every such call; of a store that has it, every built
  text is as said: it is the newline-join of its lines, none of which is empty unless the
  text is.
\<close>

theorem reachable_text_has_no_blank_line:
  "Solid (init_heap :: 'v heap)
   \<and> (Solid h \<longrightarrow> Solid (snd (new_QueryBuilder h)))
   \<and> (Solid h \<and> clause_text p \<longrightarrow>
        Solid (match this p h) \<and> Solid (optionalMatch this p h)
        \<and> Solid (where' this p h) \<and> Solid (andWhere this p h) \<and> Solid (orWhere this p h)
        \<and> Solid (with' this p h) \<and> Solid (return this p h) \<and> Solid (orderBy this p h))
   \<and> (Solid h \<longrightarrow>
        Solid (skip this n h) \<and> Solid (limit this n h) \<and> Solid (setParameter this k v h)
        \<and> Solid (clear this h) \<and> Solid (snd (build this h))
        \<and> Solid (snd (getParameters this h)))
   \<and> (Solid (callback (fst (new_QueryBuilder h)) (snd (new_QueryBuilder h))) \<longrightarrow>
        Solid (subquery this callback h))
   \<and> (Solid h \<and> fst (build this h) \<noteq> [] \<and> fst (build other h) \<noteq> [] \<longrightarrow>
        Solid (union' this other h) \<and> Solid (unionAll this other h))
   \<and> (Solid h \<longrightarrow>
        (fst (build this h) = [] \<or> [] \<notin> set (split_nl (fst (build this h))))
        \<and> join (split_nl (fst (build this h))) = fst (build this h)
        \<and> \<not> ends_nl (fst (build this h)))"
proof -
  have no_blank: "fst (build this h) = [] \<or> [] \<notin> set (split_nl (fst (build this h)))"
    and no_trailing: "\<not> ends_nl (fst (build this h))" if "Solid h"
  proof -
    from that have "no_blank_line (fst (build this h))"
      by (simp add: Solid_def solid_build)
    then show "fst (build this h) = [] \<or> [] \<notin> set (split_nl (fst (build this h)))"
      and "\<not> ends_nl (fst (build this h))"
      using no_blank_line_not_ends_nl by (auto simp: no_blank_line_def)
  qed
  show ?thesis
    by (intro conjI impI; (elim conjE)?)
      (assumption | rule Solid_init Solid_clause_calls Solid_other_calls Solid_subquery
        Solid_union no_blank no_trailing join_split_nl)+
qed

text \<open>
  An instance: the two example builders hold fragments with no empty line; the person
  query united with the car query renders to non-empty lines; and a subquery whose
  callback calls \<open>match\<close> on the builder it receives keeps the property.
\<close>

theorem reachable_text_witness:
  "Solid two_builders
   \<and> fst (build 0 two_builders) \<noteq> [] \<and> fst (build 1 two_builders) \<noteq> []
   \<and> Solid (unionAll 0 1 two_builders)
   \<and> fst (build 0 (unionAll 0 1 two_builders)) \<noteq> []
   \<and> [] \<notin> set (split_nl (fst (build 0 (unionAll 0 1 two_builders))))
   \<and> \<not> ends_nl (fst (build 0 (unionAll 0 1 two_builders)))
   \<and> fst (build 0 (unionAll 0 1 two_builders))
       = ''MATCH (p:Person)\<newline>RETURN p.name AS item\<newline>UNION ALL\<newline>MATCH (c:Car)\<newline>RETURN c.brand AS item''
   \<and> clause_text ''p.age > 18''
   \<and> Solid (andWhere 0 ''p.age > 18'' two_builders)
   \<and> clause_text ''(n)''
   \<and> Solid (snd (new_QueryBuilder two_builders))
   \<and> Solid (match (fst (new_QueryBuilder two_builders)) ''(n)'' (snd (new_QueryBuilder two_builders)))
   \<and> Solid (subquery 0 (\<lambda>sub s. match sub ''(n)'' s) two_builders)"
proof -
  have s: "Solid two_builders"
    unfolding Solid_def
    by (subst two_builders_all)
      (simp add: two_builders_simps solid_def stored_def no_blank_line_def empty_builder_def)
  have t: "fst (build 0 two_builders) \<noteq> []" "fst (build 1 two_builders) \<noteq> []"
    by (simp_all add: example_texts)
  have c: "clause_text ''p.age > 18''"
    by (simp add: clause_text_def)
  note first = reachable_text_has_no_blank_line
    [where h = two_builders and this = 0 and other = 1 and p = "''p.age > 18''"
       and n = 0 and k = "[]" and v = 0 and callback = "\<lambda>sub s. s"]
  from first s t c have u: "Solid (unionAll 0 1 two_builders)"
    and w: "Solid (andWhere 0 ''p.age > 18'' two_builders)"
    by blast+
  have ne: "fst (build 0 (unionAll 0 1 two_builders)) \<noteq> []"
    by (simp add: build_eq_Nil union_simps stored_def empty_builder_def)
  note second = reachable_text_has_no_blank_line
    [where h = "unionAll 0 1 two_builders" and this = 0 and other = 1 and p = "[]"
       and n = 0 and k = "[]" and v = 0 and callback = "\<lambda>sub s. s"]
  from second u ne have "[] \<notin> set (split_nl (fst (build 0 (unionAll 0 1 two_builders))))"
    and "\<not> ends_nl (fst (build 0 (unionAll 0 1 two_builders)))"
    by blast+
  then have lines: "[] \<notin> set (split_nl (fst (build 0 (unionAll 0 1 two_builders))))"
    "\<not> ends_nl (fst (build 0 (unionAll 0 1 two_builders)))" .
  have united: "fst (build 0 (unionAll 0 1 two_builders))
       = ''MATCH (p:Person)\<newline>RETURN p.name AS item\<newline>UNION ALL\<newline>MATCH (c:Car)\<newline>RETURN c.brand AS item''"
    by (simp add: build_fst union_simps stored_def pagination_def empty_builder_def
        Boolean_def two_builders_simps)
  have c': "clause_text ''(n)''"
    by (simp add: clause_text_def)
  from first s have new: "Solid (snd (new_QueryBuilder two_builders))"
    by blast
  note third = reachable_text_has_no_blank_line
    [where h = "snd (new_QueryBuilder two_builders)"
       and this = "fst (new_QueryBuilder two_builders)" and other = 1 and p = "''(n)''"
       and n = 0 and k = "[]" and v = 0 and callback = "\<lambda>sub s. s"]
  from third new c'
  have inner: "Solid (match (fst (new_QueryBuilder two_builders)) ''(n)''
      (snd (new_QueryBuilder two_builders)))"
    by blast
  note fourth = reachable_text_has_no_blank_line
    [where h = two_builders and this = 0 and other = 1 and p = "[]"
       and n = 0 and k = "[]" and v = 0 and callback = "\<lambda>sub s. match sub ''(n)'' s"]
  from fourth inner have sub: "Solid (subquery 0 (\<lambda>sub s. match sub ''(n)'' s) two_builders)"
    by blast
  from s t c u w ne lines united c' new inner sub show ?thesis by blast
qed

text \<open>
  The claim as stated fails for a union with a builder that renders to the empty text:
  the entry is the receiver's text followed by \<open>\nUNION\n\<close> and nothing, and the built
  text ends in a newline.
\<close>

theorem union_with_new_builder_ends_in_newline:
  "fst (build 0 (run 0 [Match ''(n)'', Union []] (snd (new_QueryBuilder (init_heap :: unit heap)))))
     = ''MATCH (n)\<newline>UNION\<newline>''
   \<and> ends_nl (fst (build 0 (run 0 [Match ''(n)'', Union []]
                               (snd (new_QueryBuilder (init_heap :: unit heap))))))"
  by (simp add: build_fst union_simps new_QueryBuilder_eq init_heap_def match_def modify_simps
      stored_def pagination_def empty_builder_def Boolean_def ends_nl_def)

text \<open>
  Each condition of the amended claim is needed. A receiver that renders to the empty
  text gives a built text whose first line is empty:
\<close>

theorem union_on_new_builder_starts_with_empty_line:
  "fst (build 0 (snd (new_QueryBuilder (init_heap :: unit heap)))) = []
   \<and> fst (build 0 (run 0 [UnionAll [Match ''(n)'']] (snd (new_QueryBuilder (init_heap :: unit heap)))))
       = ''\<newline>UNION ALL\<newline>MATCH (n)''
   \<and> [] \<in> set (split_nl (fst (build 0 (run 0 [UnionAll [Match ''(n)'']]
                                         (snd (new_QueryBuilder (init_heap :: unit heap)))))))"
  by (simp add: build_fst union_simps new_QueryBuilder_eq init_heap_def match_def modify_simps
      stored_def pagination_def empty_builder_def Boolean_def)

text \<open>
  A text argument that ends in a newline gives a built text that ends in a newline, and
  one with an empty line in it gives a built text with an empty line:
\<close>

theorem match_text_with_newlines:
  "\<not> clause_text ''(n)\<newline>''
   \<and> fst (build 0 (match 0 ''(n)\<newline>'' (snd (new_QueryBuilder (init_heap :: unit heap)))))
       = ''MATCH (n)\<newline>''
   \<and> ends_nl (fst (build 0 (match 0 ''(n)\<newline>'' (snd (new_QueryBuilder (init_heap :: unit heap))))))
   \<and> \<not> clause_text ''(a)\<newline>\<newline>(b)''
   \<and> [] \<in> set (split_nl (fst (build 0 (match 0 ''(a)\<newline>\<newline>(b)''
                                         (snd (new_QueryBuilder (init_heap :: unit heap)))))))"
  by (simp add: clause_text_def build_fst new_QueryBuilder_eq init_heap_def match_def
      modify_simps stored_def pagination_def empty_builder_def Boolean_def ends_nl_def)

subsection \<open>C5: andWhere and orWhere\<close>

text \<open>
  Claim C5. For every condition, \<open>andWhere\<close> and \<open>orWhere\<close> on a builder with an empty
  where buffer do what \<open>where\<close> does (the fragment is \<open>WHERE <condition>\<close>, with no
  \<open>AND\<close> or \<open>OR\<close>); on a builder with a non-empty where buffer, \<open>andWhere\<close> appends
  \<open>AND <condition>\<close> and \<open>orWhere\<close> appends \<open>OR <condition>\<close> to the where buffer.
\<close>

theorem andWhere_orWhere_first_or_later:
  "(whereClauses (builders h this) = [] \<longrightarrow>
      andWhere this c h = where' this c h \<and> orWhere this c h = where' this c h
      \<and> whereClauses (builders (where' this c h) this) = [''WHERE '' @ c])
   \<and> (whereClauses (builders h this) \<noteq> [] \<longrightarrow>
      andWhere this c h = modify this (\<lambda>b. b\<lparr>whereClauses := whereClauses b @ [''AND '' @ c]\<rparr>) h
      \<and> orWhere this c h = modify this (\<lambda>b. b\<lparr>whereClauses := whereClauses b @ [''OR '' @ c]\<rparr>) h
      \<and> whereClauses (builders (andWhere this c h) this)
          = whereClauses (builders h this) @ [''AND '' @ c]
      \<and> whereClauses (builders (orWhere this c h) this)
          = whereClauses (builders h this) @ [''OR '' @ c])"
  by (simp add: andWhere_def orWhere_def where'_def modify_def)

theorem andWhere_orWhere_witness:
  "whereClauses (builders (snd (new_QueryBuilder (init_heap :: unit heap))) 0) = []
   \<and> andWhere 0 ''a = 1'' (snd (new_QueryBuilder (init_heap :: unit heap)))
       = where' 0 ''a = 1'' (snd (new_QueryBuilder init_heap))
   \<and> whereClauses (builders (where' 0 ''a = 1'' (snd (new_QueryBuilder (init_heap :: unit heap)))) 0) \<noteq> []
   \<and> whereClauses (builders (orWhere 0 ''b = 2''
        (where' 0 ''a = 1'' (snd (new_QueryBuilder (init_heap :: unit heap))))) 0)
       = [''WHERE a = 1'', ''OR b = 2'']"
  using andWhere_orWhere_first_or_later
      [of "snd (new_QueryBuilder (init_heap :: unit heap))" 0 "''a = 1''"]
    andWhere_orWhere_first_or_later
      [of "where' 0 ''a = 1'' (snd (new_QueryBuilder (init_heap :: unit heap)))" 0 "''b = 2''"]
  by (simp add: new_QueryBuilder_def new_record_def init_heap_def where'_def modify_def)

subsection \<open>C6: union and unionAll leave the operand alone\<close>

text \<open>
  Claim C6, amended. For two distinct builders A and B of the store, \<open>A.union(B)\<close> and
  \<open>A.unionAll(B)\<close> leave B as it was: its buffers, its return and order-by slots, its
  skip and limit values, its reference to its parameter object, and the entries of that
  object.
\<close>

theorem union_leaves_other:
  assumes "this \<noteq> other" and "allocated h other"
  shows "builders (union' this other h) other = builders h other
         \<and> records (union' this other h) (parameters (builders h other))
             = records h (parameters (builders h other))
         \<and> builders (unionAll this other h) other = builders h other
         \<and> records (unionAll this other h) (parameters (builders h other))
             = records h (parameters (builders h other))"
  using assms
  by (auto simp: union'_def unionAll_def build_def Let_def clear_def new_record_def modify_def
      getParameters_def Object_assign_def allocated_def)

theorem union_leaves_other_witness:
  "(0 :: ref) \<noteq> 1 \<and> allocated two_builders 1
   \<and> builders (union' 0 1 two_builders) 1 = builders two_builders 1
   \<and> records (unionAll 0 1 two_builders) (parameters (builders two_builders 1)) ''brand'' = Some 7"
  using union_leaves_other [of 0 1 two_builders]
  by (simp add: allocated_def two_builders_simps)

text \<open>
  The claim as stated, for every pair of builders, fails when the operand is the receiver:
  the one builder is reset, and its return slot is empty afterwards.
\<close>

theorem union_with_itself_changes_operand:
  "returnClause (builders (union' 0 0 one_builder) 0) \<noteq> returnClause (builders one_builder 0)"
  by (simp add: union_simps empty_builder_def one_builder_simps)

subsection \<open>C7: build reads only\<close>

text \<open>
  Claim C7. For every builder state, \<open>build\<close> leaves the store, and so every field of the
  builder, as it was, and a second \<open>build\<close> with no call in between returns the same
  text.
\<close>

theorem build_leaves_store:
  "snd (build this h) = h \<and> build this (snd (build this h)) = build this h"
  by (simp add: build_snd)

subsection \<open>C8: getParameters returns a copy\<close>

text \<open>
  Claim C8. For every builder of the store, \<open>getParameters\<close> returns a parameter object
  with the entries of the builder's own parameter object and another reference. The builder
  and its own parameter object are as before; and whatever entries \<open>m\<close> the caller then
  gives the returned object, \<open>build\<close> returns the same text and a later \<open>getParameters\<close>
  returns the same entries as before.
\<close>

theorem getParameters_copy:
  fixes h :: "'v heap" and m :: "string \<rightharpoonup> 'v"
  assumes "allocated h this"
  shows "records (snd (getParameters this h)) (fst (getParameters this h))
           = records h (parameters (builders h this))
         \<and> fst (getParameters this h) \<noteq> parameters (builders h this)
         \<and> builders (snd (getParameters this h)) = builders h
         \<and> records (snd (getParameters this h)) (parameters (builders h this))
             = records h (parameters (builders h this))
         \<and> (let r = fst (getParameters this h);
                 h' = snd (getParameters this h);
                 h'' = h'\<lparr>records := (records h')(r := m)\<rparr>
             in builders h'' = builders h
                \<and> records h'' (parameters (builders h this))
                    = records h (parameters (builders h this))
                \<and> fst (build this h'') = fst (build this h)
                \<and> records (snd (getParameters this h'')) (fst (getParameters this h''))
                    = records h (parameters (builders h this)))"
proof -
  from assms have p: "parameters (builders h this) < nextRecord h"
    by (simp add: allocated_def)
  let ?r = "fst (getParameters this h)"
  let ?h' = "snd (getParameters this h)"
  let ?h'' = "?h'\<lparr>records := (records ?h')(?r := m)\<rparr>"
  have b'': "builders ?h'' = builders h"
    using p by (simp add: getParameters_snd)
  have p'': "parameters (builders ?h'' this) < nextRecord ?h''"
    using p by (simp add: getParameters_snd)
  have same_text: "fst (build this ?h'') = fst (build this h)"
    by (rule build_text_cong) (simp add: b'')
  have again: "records (snd (getParameters this ?h'')) (fst (getParameters this ?h''))
                 = records h (parameters (builders h this))"
    using p by (simp add: getParameters_snd [OF p''] getParameters_fst) (simp add: getParameters_snd)
  show ?thesis
    using p same_text again by (simp add: Let_def) (simp add: getParameters_snd getParameters_fst)
qed

theorem getParameters_copy_witness:
  "allocated one_builder 0
   \<and> fst (getParameters 0 one_builder) \<noteq> parameters (builders one_builder 0)
   \<and> records (snd (getParameters 0 one_builder)) (fst (getParameters 0 one_builder)) ''minAge''
       = Some 18
   \<and> fst (build 0 ((snd (getParameters 0 one_builder))
          \<lparr>records := (records (snd (getParameters 0 one_builder)))
                         (fst (getParameters 0 one_builder) := Map.empty)\<rparr>))
       = ''MATCH (p:Person)\<newline>RETURN p.name AS item''"
  using getParameters_copy [of one_builder 0 Map.empty]
  by (simp add: allocated_def one_builder_simps Let_def example_texts)

subsection \<open>C9: pagination lines\<close>




text \<open>
  Text of the caller with a newline in it does the same, with no call of \<open>skip\<close> on any
  builder:
\<close>

theorem skip_line_from_match_text:
  "skipValue (builders (match 0 ''(n)\<newline>SKIP 1'' (snd (new_QueryBuilder (init_heap :: unit heap)))) 0)
     = None
   \<and> ''SKIP 1'' \<in> set (split_nl (fst (build 0 (match 0 ''(n)\<newline>SKIP 1''
                                        (snd (new_QueryBuilder (init_heap :: unit heap)))))))"
  by (simp add: build_fst new_QueryBuilder_eq init_heap_def match_def modify_simps stored_def
      pagination_def empty_builder_def Boolean_def)

subsection \<open>C10: an empty subquery\<close>

text \<open>
  Claim C10. When the callback of \<open>subquery\<close> leaves the new sub-builder as it was
  created, \<open>subquery\<close> still appends the entry \<open>()\<close> to the match buffer of the receiver,
  and the text built afterwards has the line \<open>()\<close>.
\<close>

theorem empty_subquery_adds_parentheses:
  assumes "new_QueryBuilder h = (sub, h1)"
      and "builders (callback sub h1) sub = builders h1 sub"
  shows "matchClauses (builders (subquery this callback h) this)
           = matchClauses (builders (callback sub h1) this) @ [''()'']
         \<and> ''()'' \<in> set (split_nl (fst (build this (subquery this callback h))))"
proof -
  from assms(1) have sub: "sub = fst (new_QueryBuilder h)" and h1: "h1 = snd (new_QueryBuilder h)"
    by simp_all
  have "builders h1 sub = empty_builder (nextRecord h)"
    by (simp add: sub h1 new_QueryBuilder_eq)
  with assms(2) have sub_empty: "fst (build sub (callback sub h1)) = []"
    by (simp add: build_eq_Nil pagination_eq_Nil stored_def empty_builder_def)
  have m: "matchClauses (builders (subquery this callback h) this)
           = matchClauses (builders (callback sub h1) this) @ [''()'']"
    using sub_empty by (simp add: subquery_simps Let_def sub h1)
  have "''()'' \<in> set (stored (builders (subquery this callback h) this)
                        @ pagination (builders (subquery this callback h) this))"
    by (simp add: stored_def m)
  then have "''()'' \<in> set (split_nl (fst (build this (subquery this callback h))))"
    unfolding build_fst by (rule element_is_line) simp_all
  with m show ?thesis by simp
qed

theorem empty_subquery_witness:
  "new_QueryBuilder one_builder = (1, snd (new_QueryBuilder one_builder))
   \<and> builders (snd (new_QueryBuilder one_builder)) 1 = builders (snd (new_QueryBuilder one_builder)) 1
   \<and> matchClauses (builders (subquery 0 (\<lambda>sub s. s) one_builder) 0) = [''MATCH (p:Person)'', ''()'']
   \<and> ''()'' \<in> set (split_nl (fst (build 0 (subquery 0 (\<lambda>sub s. s) one_builder))))"
  using empty_subquery_adds_parentheses
    [of one_builder 1 "snd (new_QueryBuilder one_builder)" "\<lambda>sub s. s" 0]
  by (simp add: new_QueryBuilder_eq one_builder_simps)

end
